theory Spec2Isabelle
  imports Complex_Main
begin

section \<open>The sliding-window rate limiter (\<^verbatim>\<open>class RateLimiter\<close>, bot.py lines 59-87)\<close>

text \<open>
  \<^verbatim>\<open>time.time()\<close> is a reading of the wall clock in seconds. It is modelled as a
  \<^typ>\<open>real\<close> that every operation takes as its first argument; the rounding of
  Python's binary floating point is not modelled. \<^verbatim>\<open>max_calls\<close> is a Python integer
  (\<^typ>\<open>int\<close>), \<^verbatim>\<open>time_frame\<close> a number of seconds.

  \<^verbatim>\<open>self.calls = defaultdict(list)\<close> is a map from keys to lists of timestamps. A
  \<^verbatim>\<open>defaultdict\<close> inserts the default value (the empty list) as soon as a missing
  key is looked up with \<^verbatim>\<open>self.calls[key]\<close>; \<open>lookup_default\<close> below returns the
  list that is read together with the table after the lookup.
\<close>

record 'k RateLimiter =
  max_calls :: int
  time_frame :: real
  calls :: "'k \<rightharpoonup> real list"

definition RateLimiter_init :: "int \<Rightarrow> real \<Rightarrow> 'k RateLimiter" where
  "RateLimiter_init mc tf = \<lparr>max_calls = mc, time_frame = tf, calls = Map.empty\<rparr>"

definition lookup_default :: "('k \<rightharpoonup> real list) \<Rightarrow> 'k \<Rightarrow> real list \<times> ('k \<rightharpoonup> real list)" where
  "lookup_default m key =
     (case m key of
        None \<Rightarrow> ([], m(key \<mapsto> []))
      | Some xs \<Rightarrow> (xs, m))"

text \<open>
  \<^verbatim>\<open>add_call\<close> returns \<^verbatim>\<open>True\<close> when the call is rate limited (rejected) and
  \<^verbatim>\<open>False\<close> when it is admitted; the model returns that flag with the new limiter.
\<close>

definition add_call :: "real \<Rightarrow> 'k \<Rightarrow> 'k RateLimiter \<Rightarrow> bool \<times> 'k RateLimiter" where
  "add_call current_time key self =
     (let (old, m) = lookup_default (calls self) key;
          kept = filter (\<lambda>call_time. current_time - call_time < time_frame self) old;
          m' = m(key \<mapsto> kept)
      in if int (length kept) \<ge> max_calls self
         then (True, self\<lparr>calls := m'\<rparr>)
         else (False, self\<lparr>calls := m'(key \<mapsto> kept @ [current_time])\<rparr>))"

definition get_retry_after :: "real \<Rightarrow> 'k \<Rightarrow> 'k RateLimiter \<Rightarrow> real \<times> 'k RateLimiter" where
  "get_retry_after now key self =
     (let (xs, m) = lookup_default (calls self) key;
          self' = self\<lparr>calls := m\<rparr>
      in if xs = [] then (0, self')
         else (let oldest_call = min_list xs
               in (max 0 (time_frame self - (now - oldest_call)), self')))"

text \<open>
  The recorded timestamps of a key: what \<^verbatim>\<open>self.calls[key]\<close> would read (the empty
  list for a key that is not in the table).
\<close>

definition records :: "'k RateLimiter \<Rightarrow> 'k \<Rightarrow> real list" where
  "records self key = fst (lookup_default (calls self) key)"

text \<open>
  A sequence of \<^verbatim>\<open>add_call\<close> invocations, each with its key and the clock reading at
  the call, run from a given limiter state. \<open>admitted_calls\<close> lists, in order, the
  invocations that were admitted (for which \<^verbatim>\<open>add_call\<close> returned \<^verbatim>\<open>False\<close>).
\<close>

fun admitted_calls :: "'k RateLimiter \<Rightarrow> ('k \<times> real) list \<Rightarrow> ('k \<times> real) list" where
  "admitted_calls self [] = []"
| "admitted_calls self ((key, t) # es) =
     (case add_call t key self of
        (limited, self') \<Rightarrow> (if limited then [] else [(key, t)]) @ admitted_calls self' es)"

text \<open>The admitted timestamps of one key that lie in the half-open interval \<open>(t - w, t]\<close>.\<close>

definition admitted_in_window ::
  "'k RateLimiter \<Rightarrow> ('k \<times> real) list \<Rightarrow> 'k \<Rightarrow> real \<Rightarrow> real list" where
  "admitted_in_window self es key t =
     filter (\<lambda>s. t - time_frame self < s \<and> s \<le> t)
       (map snd (filter (\<lambda>e. fst e = key) (admitted_calls self es)))"

text \<open>
  The value the specification describes for \<^verbatim>\<open>retry_after\<close>: prune the expired
  records first, then take the oldest survivor. This definition follows the
  specification's sentence, not the source; it is compared with \<open>get_retry_after\<close>.
\<close>

definition retry_after_spec :: "real \<Rightarrow> 'k \<Rightarrow> 'k RateLimiter \<Rightarrow> real" where
  "retry_after_spec now key self =
     (let pruned = filter (\<lambda>call_time. now - call_time < time_frame self) (records self key)
      in if pruned = [] then 0
         else max 0 (time_frame self - (now - min_list pruned)))"


section \<open>The retrying client (\<^verbatim>\<open>get_gemini_response\<close>, bot.py lines 135-152)\<close>

text \<open>
  One call of \<^verbatim>\<open>conversation.send_message(question)\<close> followed by \<^verbatim>\<open>response.text\<close>
  either yields a text, raises \<^verbatim>\<open>BlockedPromptException\<close>, or raises another
  exception \<open>e\<close>, of which only \<^verbatim>\<open>str(e)\<close> is used. The external service is a
  function from the attempt number (0, 1, 2) to the outcome of that attempt.

  The function's observable effects are the calls of the service and the calls of
  \<^verbatim>\<open>asyncio.sleep\<close>, recorded in order in a trace. The result is the returned text
  (\<open>None\<close> is Python's \<^verbatim>\<open>None\<close>, returned when the \<^verbatim>\<open>for\<close> loop ends without a
  \<^verbatim>\<open>return\<close>).
\<close>

datatype outcome = Text string | BlockedPromptException | Exception string

datatype effect = Send_message nat | Sleep int

record gemini_result =
  returned :: "string option"
  trace :: "effect list"

definition blocked_text :: string where
  "blocked_text =
     ''I'm sorry, but I cannot respond to that request as it may violate content safety guidelines.''"

definition error_text :: "string \<Rightarrow> string" where
  "error_text e =
     ''I'm experiencing technical difficulties. Please try again later. Error: '' @ e"

text \<open>
  The body of \<^verbatim>\<open>for attempt in range(max_retries)\<close>, by recursion on the attempt
  numbers that remain; \<open>retry_delay\<close> is the loop's mutable variable.
\<close>

fun attempt_loop ::
  "int \<Rightarrow> (nat \<Rightarrow> outcome) \<Rightarrow> nat list \<Rightarrow> int \<Rightarrow> effect list \<Rightarrow> gemini_result" where
  "attempt_loop max_retries send [] retry_delay tr = \<lparr>returned = None, trace = tr\<rparr>"
| "attempt_loop max_retries send (attempt # rest) retry_delay tr =
     (case send attempt of
        Text t \<Rightarrow> \<lparr>returned = Some t, trace = tr @ [Send_message attempt]\<rparr>
      | BlockedPromptException \<Rightarrow>
          \<lparr>returned = Some blocked_text, trace = tr @ [Send_message attempt]\<rparr>
      | Exception e \<Rightarrow>
          (if int attempt < max_retries - 1
           then attempt_loop max_retries send rest (retry_delay * 2)
                  (tr @ [Send_message attempt, Sleep retry_delay])
           else \<lparr>returned = Some (error_text e), trace = tr @ [Send_message attempt]\<rparr>))"

definition get_gemini_response :: "(nat \<Rightarrow> outcome) \<Rightarrow> gemini_result" where
  "get_gemini_response send = attempt_loop 3 send [0..<3] 2 []"

text \<open>What a trace says: the number of attempts made and the delays slept, in order.\<close>

fun attempts :: "effect list \<Rightarrow> nat" where
  "attempts [] = 0"
| "attempts (Send_message _ # tr) = Suc (attempts tr)"
| "attempts (Sleep _ # tr) = attempts tr"

fun sleeps :: "effect list \<Rightarrow> int list" where
  "sleeps [] = []"
| "sleeps (Send_message _ # tr) = sleeps tr"
| "sleeps (Sleep d # tr) = d # sleeps tr"

section \<open>The conversation store and \<^verbatim>\<open>forget\<close> (bot.py lines 56, 248-295)\<close>

text \<open>
  \<^verbatim>\<open>conversations\<close> is a Python dictionary from the key \<^verbatim>\<open>"user:<id>"\<close> to a
  dictionary with the entries \<^verbatim>\<open>"chat"\<close> and \<^verbatim>\<open>"created_at"\<close>. A Python dictionary
  keeps its keys in insertion order and holds each key once: it is modelled as an
  association list, and the theorems that need it assume that the keys are distinct.
  A chat is its history, a list of turns (role and text). \<^verbatim>\<open>datetime\<close> values have
  microsecond resolution and exact arithmetic: a point in time is an \<^typ>\<open>int\<close> of
  microseconds, and so is a \<^verbatim>\<open>timedelta\<close>.
\<close>

record conversation =
  chat :: "(string \<times> string) list"
  created_at :: int

type_synonym store = "(string \<times> conversation) list"

datatype py_error = KeyError string | AttributeError string

text \<open>\<^verbatim>\<open>key in conversations\<close> and \<^verbatim>\<open>del conversations[key]\<close>.\<close>

definition has_key :: "string \<Rightarrow> store \<Rightarrow> bool" where
  "has_key key conversations = (key \<in> set (map fst conversations))"

definition del_item :: "string \<Rightarrow> store \<Rightarrow> py_error + store" where
  "del_item key conversations =
     (if has_key key conversations
      then Inr (filter (\<lambda>kv. fst kv \<noteq> key) conversations)
      else Inl (KeyError key))"

text \<open>
  \<^verbatim>\<open>str.lower()\<close> on the ASCII letters, which decide the comparisons with
  \<^verbatim>\<open>"user"\<close> and \<^verbatim>\<open>"all"\<close>, and \<^verbatim>\<open>str(n)\<close> for a length.
\<close>

definition lower_char :: "char \<Rightarrow> char" where
  "lower_char c =
     (let n = (of_char c :: nat) in if 65 \<le> n \<and> n \<le> 90 then char_of (n + 32) else c)"

definition lower :: "string \<Rightarrow> string" where
  "lower s = map lower_char s"

definition digit_char :: "nat \<Rightarrow> char" where
  "digit_char d = char_of (48 + d)"

function str_nat :: "nat \<Rightarrow> string" where
  "str_nat n = (if n < 10 then [digit_char n] else str_nat (n div 10) @ [digit_char (n mod 10)])"
  by pat_completeness auto
termination
  by (relation "measure id") auto

declare str_nat.simps [simp del]

text \<open>
  The message sent with \<^verbatim>\<open>ctx.send(embed=embed)\<close>: title, description and the fields
  added with \<^verbatim>\<open>add_field\<close>. The emoji that starts each title in the source is left
  out of the title here, as are colour, footer and timestamp.
\<close>

record embed =
  title :: string
  description :: string
  embed_fields :: "(string \<times> string) list"

definition permission_denied :: embed where
  "permission_denied =
     \<lparr>title = ''Permission Denied'',
      description = ''Only administrators can clear all conversations.'',
      embed_fields = []\<rparr>"

text \<open>
  The loop \<^verbatim>\<open>for key in keys_to_remove: if key in conversations: del conversations[key]\<close>.
  The guard makes the deletion safe, so the \<^verbatim>\<open>KeyError\<close> branch of \<open>del_item\<close> leaves
  the store as it is.
\<close>

fun remove_keys :: "string list \<Rightarrow> store \<Rightarrow> store" where
  "remove_keys [] conversations = conversations"
| "remove_keys (key # keys) conversations =
     (if has_key key conversations
      then (case del_item key conversations of
              Inr conversations' \<Rightarrow> remove_keys keys conversations'
            | Inl _ \<Rightarrow> remove_keys keys conversations)
      else remove_keys keys conversations)"

definition memory_reset :: "string list \<Rightarrow> string \<Rightarrow> embed" where
  "memory_reset keys_to_remove target_description =
     (if keys_to_remove \<noteq> []
      then \<lparr>title = ''Memory Reset'',
            description = ''I've cleared '' @ str_nat (length keys_to_remove) @ '' conversation(s)!'',
            embed_fields = [(''Details'', ''Reset: '' @ target_description)]\<rparr>
      else \<lparr>title = ''Memory Reset'',
            description = ''No conversations were found to clear.'',
            embed_fields = []\<rparr>)"

text \<open>
  The author of the command. In a guild \<^verbatim>\<open>ctx.author\<close> is a \<^verbatim>\<open>discord.Member\<close>,
  whose \<^verbatim>\<open>guild_permissions.administrator\<close> is a boolean. In a direct message it is a
  \<^verbatim>\<open>discord.User\<close>, which has no attribute \<^verbatim>\<open>guild_permissions\<close>: reading it raises
  \<^verbatim>\<open>AttributeError\<close>. The permissions of the author are \<open>Some administrator\<close> for a
  member and \<open>None\<close> for a user in a direct message; no check in the source keeps the
  command out of direct messages.
\<close>

definition guild_permissions_administrator :: "bool option \<Rightarrow> py_error + bool" where
  "guild_permissions_administrator guild_permissions =
     (case guild_permissions of
        None \<Rightarrow> Inl (AttributeError ''guild_permissions'')
      | Some administrator \<Rightarrow> Inr administrator)"

text \<open>
  \<^verbatim>\<open>forget(ctx, target)\<close> with \<open>user_id = str(ctx.author.id)\<close> and the permissions of
  \<^verbatim>\<open>ctx.author\<close>. It returns the embed that is sent and the store after the command,
  or the exception it raises. The test
  \<^verbatim>\<open>target.lower() == "all" and ctx.author.guild_permissions.administrator\<close> reads the
  permissions only when the target is \<^verbatim>\<open>all\<close>, and it is evaluated before anything is
  deleted, so the store is as it was when the exception is raised. For a target that
  is neither \<^verbatim>\<open>user\<close> nor \<^verbatim>\<open>all\<close> the source leaves \<^verbatim>\<open>target_description\<close> unbound and
  never reads it, since \<^verbatim>\<open>keys_to_remove\<close> is empty; the model passes the empty string.
\<close>

definition forget :: "string \<Rightarrow> bool option \<Rightarrow> string \<Rightarrow> store \<Rightarrow> py_error + (embed \<times> store)" where
  "forget user_id guild_permissions target conversations =
     (let conversation_key = ''user:'' @ user_id
      in if lower target = ''user''
         then Inr (memory_reset [conversation_key] ''your conversation history'',
                   remove_keys [conversation_key] conversations)
         else (case (if lower target = ''all''
                     then guild_permissions_administrator guild_permissions
                     else Inr False) of
                 Inl e \<Rightarrow> Inl e
               | Inr True \<Rightarrow>
                   (let keys_to_remove = map fst conversations
                    in Inr (memory_reset keys_to_remove ''all conversation histories'',
                            remove_keys keys_to_remove conversations))
               | Inr False \<Rightarrow>
                   (if lower target = ''all''
                    then Inr (permission_denied, conversations)
                    else Inr (memory_reset [] [], remove_keys [] conversations))))"

text \<open>
  An exception raised in a command reaches \<^verbatim>\<open>on_command_error\<close> (bot.py lines
  654-683) wrapped in a \<^verbatim>\<open>CommandInvokeError\<close>, which is none of the three classes
  the handler tests for: the last branch sends the Error embed with \<^verbatim>\<open>str(error)\<close>,
  the library's text for the wrapped exception.
\<close>

definition str_error :: "py_error \<Rightarrow> string" where
  "str_error e =
     ''Command raised an exception: '' @
       (case e of
          KeyError k \<Rightarrow> ''KeyError: '' @ [CHR 0x27] @ k @ [CHR 0x27]
        | AttributeError a \<Rightarrow>
            ''AttributeError: 'User' object has no attribute '' @ [CHR 0x27] @ a @ [CHR 0x27])"

definition on_command_error :: "py_error \<Rightarrow> embed" where
  "on_command_error error =
     \<lparr>title = ''Error'',
      description = ''An error occurred: '' @ str_error error,
      embed_fields = []\<rparr>"

text \<open>
  The command as the caller sees it: the embed of \<^verbatim>\<open>forget\<close>, or the embed of the
  error handler when \<^verbatim>\<open>forget\<close> raises, and the store afterwards.
\<close>

definition forget_command :: "string \<Rightarrow> bool option \<Rightarrow> string \<Rightarrow> store \<Rightarrow> embed \<times> store" where
  "forget_command user_id guild_permissions target conversations =
     (case forget user_id guild_permissions target conversations of
        Inr reply \<Rightarrow> reply
      | Inl e \<Rightarrow> (on_command_error e, conversations))"

section \<open>The reaper (\<^verbatim>\<open>check_conversation_age\<close>, bot.py lines 934-947)\<close>

definition timedelta_days :: "int \<Rightarrow> int" where
  "timedelta_days d = d * 86400 * 1000000"

text \<open>
  The loop runs over the snapshot \<^verbatim>\<open>list(conversations.items())\<close> and deletes from
  the live dictionary with an unguarded \<^verbatim>\<open>del\<close>, which raises \<^verbatim>\<open>KeyError\<close> for a
  missing key.
\<close>

fun sweep :: "int \<Rightarrow> (string \<times> conversation) list \<Rightarrow> store \<Rightarrow> nat \<Rightarrow> py_error + (store \<times> nat)" where
  "sweep current_time [] conversations reset_count = Inr (conversations, reset_count)"
| "sweep current_time ((key, v) # items) conversations reset_count =
     (if current_time - created_at v > timedelta_days 7
      then (case del_item key conversations of
              Inl e \<Rightarrow> Inl e
            | Inr conversations' \<Rightarrow> sweep current_time items conversations' (reset_count + 1))
      else sweep current_time items conversations reset_count)"

record sweep_result =
  remaining :: store
  deleted :: nat
  logged :: "string option"

definition check_conversation_age :: "int \<Rightarrow> store \<Rightarrow> py_error + sweep_result" where
  "check_conversation_age current_time conversations =
     (case sweep current_time conversations conversations 0 of
        Inl e \<Rightarrow> Inl e
      | Inr (conversations', reset_count) \<Rightarrow>
          Inr \<lparr>remaining = conversations', deleted = reset_count,
               logged = (if reset_count > 0
                         then Some (''Auto-reset '' @ str_nat reset_count
                                    @ '' conversations that were over a week old'')
                         else None)\<rparr>)"

definition expired :: "int \<Rightarrow> string \<times> conversation \<Rightarrow> bool" where
  "expired current_time kv = (current_time - created_at (snd kv) > timedelta_days 7)"

section \<open>Proof invariants\<close>

text \<open>
  The invariant behind the window bound, for one key: \<open>hist\<close> is the list of all the
  timestamps admitted so far for the key and \<open>n\<close> the clock reading of the latest call.
  From \<open>n\<close> on, the recorded list and the history agree on every timestamp that is
  still within the window, and the history already satisfies the bound.
\<close>

definition window_inv :: "'k RateLimiter \<Rightarrow> 'k \<Rightarrow> real list \<Rightarrow> real \<Rightarrow> bool" where
  "window_inv self key hist n \<longleftrightarrow>
     (\<forall>\<tau>\<ge>n. filter (\<lambda>s. \<tau> - s < time_frame self) hist
            = filter (\<lambda>s. \<tau> - s < time_frame self) (records self key))
     \<and> (\<forall>t. int (length (filter (\<lambda>s. t - time_frame self < s \<and> s \<le> t) hist)) \<le> max_calls self)"


section \<open>The window bound\<close>

lemma add_call_unfold:
  "add_call t key self =
     (let kept = filter (\<lambda>c. t - c < time_frame self) (records self key)
      in if int (length kept) \<ge> max_calls self
         then (True, self\<lparr>calls := (calls self)(key \<mapsto> kept)\<rparr>)
         else (False, self\<lparr>calls := (calls self)(key \<mapsto> kept @ [t])\<rparr>))"
  by (simp add: add_call_def records_def lookup_default_def Let_def split: option.splits)

lemma records_update:
  "records (self\<lparr>calls := (calls self)(key \<mapsto> xs)\<rparr>) k = (if k = key then xs else records self k)"
  by (simp add: records_def lookup_default_def split: option.splits)

lemma add_call_config:
  "max_calls (snd (add_call t key self)) = max_calls self"
  "time_frame (snd (add_call t key self)) = time_frame self"
  by (simp_all add: add_call_unfold Let_def)

lemma add_call_other: "k \<noteq> key \<Longrightarrow> records (snd (add_call t key self)) k = records self k"
  by (simp add: add_call_unfold Let_def records_update)

lemma add_call_limited:
  "fst (add_call t key self) \<Longrightarrow>
     records (snd (add_call t key self)) key = filter (\<lambda>c. t - c < time_frame self) (records self key)"
  by (simp add: add_call_unfold Let_def records_update split: if_splits)

lemma add_call_admitted:
  "\<not> fst (add_call t key self) \<Longrightarrow>
     records (snd (add_call t key self)) key = filter (\<lambda>c. t - c < time_frame self) (records self key) @ [t]
     \<and> int (length (filter (\<lambda>c. t - c < time_frame self) (records self key))) < max_calls self"
  by (simp add: add_call_unfold Let_def records_update split: if_splits)

lemma filter_later:
  fixes n \<tau> w :: real
  assumes "n \<le> \<tau>"
  shows "filter (\<lambda>s. \<tau> - s < w) (filter (\<lambda>s. n - s < w) xs) = filter (\<lambda>s. \<tau> - s < w) xs"
proof -
  have "(\<lambda>s. n - s < w \<and> \<tau> - s < w) = (\<lambda>s. \<tau> - s < w)"
    using assms by auto
  then show ?thesis by (simp add: conj_commute)
qed

lemma window_inv_step_other:
  assumes "window_inv self k hist n" "n \<le> t" "k \<noteq> key"
  shows "window_inv (snd (add_call t key self)) k hist t"
  using assms unfolding window_inv_def
  by (simp add: add_call_config add_call_other)

lemma window_inv_step_limited:
  assumes inv: "window_inv self k hist n" and le: "n \<le> t" and lim: "fst (add_call t k self)"
  shows "window_inv (snd (add_call t k self)) k hist t"
proof -
  have "filter (\<lambda>s. \<tau> - s < time_frame self) hist
        = filter (\<lambda>s. \<tau> - s < time_frame self) (records (snd (add_call t k self)) k)"
    if "t \<le> \<tau>" for \<tau>
  proof -
    have "filter (\<lambda>s. \<tau> - s < time_frame self) hist
          = filter (\<lambda>s. \<tau> - s < time_frame self) (records self k)"
      using inv le that unfolding window_inv_def by simp
    also have "\<dots> = filter (\<lambda>s. \<tau> - s < time_frame self)
                       (filter (\<lambda>s. t - s < time_frame self) (records self k))"
      using that by (simp only: filter_later)
    finally show ?thesis by (simp add: add_call_limited [OF lim])
  qed
  then show ?thesis
    using inv unfolding window_inv_def by (simp add: add_call_config)
qed

lemma window_inv_step_admitted:
  assumes inv: "window_inv self k hist n" and le: "n \<le> t" and adm: "\<not> fst (add_call t k self)"
  shows "window_inv (snd (add_call t k self)) k (hist @ [t]) t"
proof -
  let ?w = "time_frame self"
  let ?kept = "filter (\<lambda>s. t - s < ?w) (records self k)"
  have rec: "records (snd (add_call t k self)) k = ?kept @ [t]"
    and room: "int (length ?kept) < max_calls self"
    using add_call_admitted [OF adm] by simp_all
  have agree: "filter (\<lambda>s. \<tau> - s < ?w) (hist @ [t])
        = filter (\<lambda>s. \<tau> - s < ?w) (records (snd (add_call t k self)) k)"
    if "t \<le> \<tau>" for \<tau>
  proof -
    have "filter (\<lambda>s. \<tau> - s < ?w) hist = filter (\<lambda>s. \<tau> - s < ?w) (records self k)"
      using inv le that unfolding window_inv_def by simp
    also have "\<dots> = filter (\<lambda>s. \<tau> - s < ?w) ?kept"
      using that by (simp only: filter_later)
    finally show ?thesis by (simp add: rec)
  qed
  have bound: "int (length (filter (\<lambda>s. u - ?w < s \<and> s \<le> u) (hist @ [t]))) \<le> max_calls self" for u
  proof (cases "t \<le> u")
    case False
    then have "filter (\<lambda>s. u - ?w < s \<and> s \<le> u) (hist @ [t]) = filter (\<lambda>s. u - ?w < s \<and> s \<le> u) hist"
      by simp
    then show ?thesis using inv unfolding window_inv_def by simp
  next
    case True
    have "(\<lambda>s. u - ?w < s \<and> s \<le> u) = (\<lambda>s. u - s < ?w \<and> s \<le> u)"
      by (intro ext) auto
    then have "filter (\<lambda>s. u - ?w < s \<and> s \<le> u) (hist @ [t])
          = filter (\<lambda>s. s \<le> u) (filter (\<lambda>s. u - s < ?w) (hist @ [t]))"
      by (simp only: filter_filter)
    then have "length (filter (\<lambda>s. u - ?w < s \<and> s \<le> u) (hist @ [t]))
          \<le> length (filter (\<lambda>s. u - s < ?w) (hist @ [t]))"
      by (simp only: length_filter_le)
    also have "\<dots> = length (filter (\<lambda>s. u - s < ?w) (?kept @ [t]))"
      using agree [OF True] rec by simp
    also have "\<dots> \<le> length (?kept @ [t])"
      by (rule length_filter_le)
    finally show ?thesis using room by simp
  qed
  show ?thesis
    unfolding window_inv_def using agree bound by (simp add: add_call_config)
qed


lemma window_bound_gen:
  assumes "window_inv self k hist n" and "sorted (map snd es)" and "\<forall>e\<in>set es. n \<le> snd e"
  shows "int (length (filter (\<lambda>s. t - time_frame self < s \<and> s \<le> t)
            (hist @ map snd (filter (\<lambda>e. fst e = k) (admitted_calls self es)))))
         \<le> max_calls self"
  using assms
proof (induction es arbitrary: self hist n)
  case Nil
  then show ?case by (simp add: window_inv_def)
next
  case (Cons e es)
  obtain key t0 where e: "e = (key, t0)" by (cases e)
  let ?self' = "snd (add_call t0 key self)"
  have le: "n \<le> t0" using Cons.prems(3) e by simp
  have sorted': "sorted (map snd es)" and later: "\<forall>e\<in>set es. t0 \<le> snd e"
    using Cons.prems(2) e by simp_all
  have cfg: "time_frame ?self' = time_frame self" "max_calls ?self' = max_calls self"
    by (simp_all add: add_call_config)
  have unfold: "admitted_calls self (e # es)
      = (if fst (add_call t0 key self) then [] else [(key, t0)]) @ admitted_calls ?self' es"
    by (simp add: e split: prod.splits)
  show ?case
  proof (cases "key = k \<and> \<not> fst (add_call t0 key self)")
    case True
    then have keq: "key = k" and adm: "\<not> fst (add_call t0 k self)"
      by auto
    have inv': "window_inv ?self' k (hist @ [t0]) t0"
      unfolding keq by (rule window_inv_step_admitted [OF Cons.prems(1) le adm])
    have "hist @ map snd (filter (\<lambda>e. fst e = k) (admitted_calls self (e # es)))
          = (hist @ [t0]) @ map snd (filter (\<lambda>e. fst e = k) (admitted_calls ?self' es))"
      unfolding unfold keq using adm by simp
    then show ?thesis
      using Cons.IH [OF inv' sorted' later] by (simp only: cfg)
  next
    case False
    have inv': "window_inv ?self' k hist t0"
    proof (cases "key = k")
      case True
      with False have "fst (add_call t0 k self)" by simp
      then show ?thesis
        using window_inv_step_limited [OF Cons.prems(1) le] True by simp
    next
      case False
      then show ?thesis
        using window_inv_step_other [OF Cons.prems(1) le] by simp
    qed
    have "hist @ map snd (filter (\<lambda>e. fst e = k) (admitted_calls self (e # es)))
          = hist @ map snd (filter (\<lambda>e. fst e = k) (admitted_calls ?self' es))"
      using False by (auto simp add: unfold)
    then show ?thesis
      using Cons.IH [OF inv' sorted' later] by (simp only: cfg)
  qed
qed

lemma window_inv_init: "0 \<le> mc \<Longrightarrow> window_inv (RateLimiter_init mc w) k [] n"
  by (simp add: window_inv_def RateLimiter_init_def records_def lookup_default_def)

text \<open>
  Claim C1 (window bound). Run any sequence of \<^verbatim>\<open>add_call\<close> invocations on a fresh
  limiter whose \<^verbatim>\<open>max_calls\<close> is not negative, with clock readings that never go
  back. Then for every key and every time \<open>t\<close>, the number of calls admitted for the
  key with a timestamp in \<open>(t - time_frame, t]\<close> is at most \<^verbatim>\<open>max_calls\<close>.
\<close>

theorem window_bound:
  assumes "0 \<le> mc" and "sorted (map snd es)"
  shows "int (length (admitted_in_window (RateLimiter_init mc w) es key t)) \<le> mc"
proof -
  define n where "n = (case es of [] \<Rightarrow> 0 | e # _ \<Rightarrow> snd e)"
  have later: "\<forall>e\<in>set es. n \<le> snd e"
    using assms(2) by (cases es) (auto simp: n_def)
  show ?thesis
    using window_bound_gen [where k = key and t = t and hist = "[]",
        OF window_inv_init [OF assms(1), where w = w] assms(2) later]
    by (simp add: admitted_in_window_def RateLimiter_init_def)
qed

text \<open>
  The bound is reached: with three calls allowed in ten seconds, the calls at 0, 1
  and 2 are admitted and the call at 3 is rejected, so the window ending at 3 holds
  exactly three admitted calls.
\<close>

theorem window_bound_witness:
  "(0::int) \<le> 3
   \<and> sorted (map snd [(''u'', 0), (''u'', 1), (''u'', 2), (''u'', 3), (''u'', 11::real)])
   \<and> admitted_in_window (RateLimiter_init 3 10)
        [(''u'', 0), (''u'', 1), (''u'', 2), (''u'', 3), (''u'', 11)] ''u'' 3 = [0, 1, 2]
   \<and> int (length (admitted_in_window (RateLimiter_init 3 10)
        [(''u'', 0), (''u'', 1), (''u'', 2), (''u'', 3), (''u'', 11)] ''u'' 3)) \<le> 3"
proof -
  have a: "(0::int) \<le> 3" by simp
  have b: "sorted (map snd [(''u'', 0), (''u'', 1), (''u'', 2), (''u'', 3), (''u'', 11::real)])"
    by simp
  have c: "admitted_in_window (RateLimiter_init 3 10)
        [(''u'', 0), (''u'', 1), (''u'', 2), (''u'', 3), (''u'', 11)] ''u'' 3 = [0, 1, 2]"
    by (simp add: admitted_in_window_def add_call_unfold RateLimiter_init_def records_def
        lookup_default_def Let_def)
  show ?thesis
    using a b c window_bound [OF a b, of 10 "''u''" 3] by simp
qed

lemma get_retry_after_unfold:
  "get_retry_after now key self =
     (if records self key = [] then 0
      else max 0 (time_frame self - (now - min_list (records self key))),
      self\<lparr>calls := snd (lookup_default (calls self) key)\<rparr>)"
  by (simp add: get_retry_after_def records_def Let_def split: prod.splits)

lemma lookup_default_present:
  "calls self key = Some xs \<Longrightarrow> self\<lparr>calls := snd (lookup_default (calls self) key)\<rparr> = self"
  by (simp add: lookup_default_def)

section \<open>The end-to-end example of the limiter\<close>

text \<open>
  Claim C7. A limiter with \<^verbatim>\<open>max_calls = 3\<close> and a window of 10 seconds, one key:
  the calls at 0, 1 and 2 are admitted, the call at 3 is rejected and
  \<^verbatim>\<open>get_retry_after\<close> at 3 is 7 seconds, and the call at 11 is admitted. A record
  whose age equals the window exactly is expired: at 11 the record of the call at 1
  is pruned with the record of the call at 0, and a call at 10 instead of 3 is admitted
  because the record of the call at 0 is pruned.
\<close>

theorem end_to_end_example_1:
  "(let self0 = RateLimiter_init 3 10;
        (l0, self1) = add_call 0 ''test_user'' self0;
        (l1, self2) = add_call 1 ''test_user'' self1;
        (l2, self3) = add_call 2 ''test_user'' self2;
        (l3, self4) = add_call 3 ''test_user'' self3;
        (r, self5) = get_retry_after 3 ''test_user'' self4;
        (l4, self6) = add_call 11 ''test_user'' self5
    in \<not> l0 \<and> \<not> l1 \<and> \<not> l2 \<and> l3 \<and> r = 7 \<and> \<not> l4
       \<and> records self4 ''test_user'' = [0, 1, 2]
       \<and> records self6 ''test_user'' = [2, 11])
   \<and> (let self0 = RateLimiter_init 3 10;
        (l0, self1) = add_call 0 ''test_user'' self0;
        (l1, self2) = add_call 1 ''test_user'' self1;
        (l2, self3) = add_call 2 ''test_user'' self2;
        (l3, self4) = add_call 10 ''test_user'' self3
    in \<not> l3 \<and> records self4 ''test_user'' = [1, 2, 10])"
  by (simp add: add_call_unfold get_retry_after_unfold RateLimiter_init_def records_def
      lookup_default_def Let_def)

section \<open>The value of \<^verbatim>\<open>get_retry_after\<close>\<close>

text \<open>
  Claim C2 says that \<^verbatim>\<open>retry_after\<close> prunes the expired records and takes the oldest
  record that survives. The source does not prune: with two calls allowed in ten
  seconds and calls admitted at 0 and 5, a query at 12 takes the expired record 0 as
  the oldest and returns 0, where the pruned list would give 3; the recorded list is
  left as it was.
\<close>

theorem retry_after_prune_counterexample:
  "(let self0 = RateLimiter_init 2 10;
        (l0, self1) = add_call 0 ''u'' self0;
        (l1, self2) = add_call 5 ''u'' self1
    in \<not> l0 \<and> \<not> l1 \<and> records self2 ''u'' = [0, 5]
       \<and> fst (get_retry_after 12 ''u'' self2) = 0
       \<and> retry_after_spec 12 ''u'' self2 = 3
       \<and> records (snd (get_retry_after 12 ''u'' self2)) ''u'' = [0, 5])"
  by (simp add: add_call_unfold get_retry_after_unfold retry_after_spec_def RateLimiter_init_def
      records_def lookup_default_def Let_def)

text \<open>
  Claim C2, amended. \<^verbatim>\<open>get_retry_after\<close> returns 0 for a key without recorded calls
  and otherwise \<open>max 0 (time_frame - (now - oldest))\<close>, where \<open>oldest\<close> is the minimum of
  the key's recorded list as it stands; the recorded list of the key is not changed.
  When every recorded call of the key is still within the window at \<open>now\<close>, as it is
  right after \<^verbatim>\<open>add_call\<close> at the same clock reading, this is the value the
  specification describes.
\<close>

theorem retry_after_value:
  "fst (get_retry_after now key self) =
     (if records self key = [] then 0
      else max 0 (time_frame self - (now - Min (set (records self key)))))
   \<and> records (snd (get_retry_after now key self)) key = records self key
   \<and> ((\<forall>c\<in>set (records self key). now - c < time_frame self) \<longrightarrow>
        fst (get_retry_after now key self) = retry_after_spec now key self)"
  by (auto simp add: get_retry_after_unfold retry_after_spec_def min_list_Min records_def
      lookup_default_def Let_def split: option.splits)


text \<open>After the calls at 0, 1 and 2, a query at 3 gives 7 seconds on both readings.\<close>

theorem retry_after_value_witness:
  "fst (get_retry_after 3 ''u'' \<lparr>max_calls = 3, time_frame = 10, calls = [''u'' \<mapsto> [0, 1, 2]]\<rparr>) = 7
   \<and> retry_after_spec 3 ''u'' \<lparr>max_calls = 3, time_frame = 10, calls = [''u'' \<mapsto> [0, 1, 2]]\<rparr> = 7
   \<and> records (snd (get_retry_after 3 ''u''
        \<lparr>max_calls = 3, time_frame = 10, calls = [''u'' \<mapsto> [0, 1, 2]]\<rparr>)) ''u'' = [0, 1, 2]"
  using retry_after_value [of 3 "''u''" "\<lparr>max_calls = 3, time_frame = 10, calls = [''u'' \<mapsto> [0, 1, 2]]\<rparr>"]
  by (simp add: records_def lookup_default_def)

section \<open>Monotonic cooldown\<close>

text \<open>
  Claim C8. For a key with at least one recorded call, a query leaves the limiter as
  it is, so that with no new call the recorded list stays the same. Between two
  clock readings \<open>t1 < t2\<close> the value of \<^verbatim>\<open>get_retry_after\<close> strictly decreases when
  it is positive at \<open>t1\<close>, and it is zero exactly from the instant at which the age of
  the oldest recorded call reaches \<^verbatim>\<open>time_frame\<close>.
\<close>

theorem monotonic_cooldown:
  assumes "records self key \<noteq> []"
  shows "snd (get_retry_after t key self) = self
     \<and> (t1 < t2 \<and> 0 < fst (get_retry_after t1 key self) \<longrightarrow>
          fst (get_retry_after t2 key (snd (get_retry_after t1 key self)))
            < fst (get_retry_after t1 key self))
     \<and> fst (get_retry_after (Min (set (records self key)) + time_frame self) key self) = 0
     \<and> (fst (get_retry_after t key self) = 0
          \<longleftrightarrow> Min (set (records self key)) + time_frame self \<le> t)"
proof -
  from assms obtain xs where xs: "calls self key = Some xs"
    by (auto simp: records_def lookup_default_def split: option.splits)
  have same: "snd (get_retry_after u key self) = self" for u
    by (simp add: get_retry_after_unfold lookup_default_present [OF xs])
  have val: "fst (get_retry_after u key self)
      = max 0 (time_frame self - (u - Min (set (records self key))))" for u
    using assms by (simp add: get_retry_after_unfold min_list_Min)
  show ?thesis
    unfolding same val by auto
qed

text \<open>With the records 0, 1, 2 and a window of 10: 7 seconds at 3, 5 seconds at 5, zero at 10.\<close>

theorem monotonic_cooldown_witness:
  "fst (get_retry_after 3 ''u'' \<lparr>max_calls = 3, time_frame = 10, calls = [''u'' \<mapsto> [0, 1, 2]]\<rparr>) = 7
   \<and> fst (get_retry_after 5 ''u'' (snd (get_retry_after 3 ''u''
        \<lparr>max_calls = 3, time_frame = 10, calls = [''u'' \<mapsto> [0, 1, 2]]\<rparr>))) = 5
   \<and> fst (get_retry_after 10 ''u'' \<lparr>max_calls = 3, time_frame = 10, calls = [''u'' \<mapsto> [0, 1, 2]]\<rparr>) = 0
   \<and> fst (get_retry_after 5 ''u'' (snd (get_retry_after 3 ''u''
        \<lparr>max_calls = 3, time_frame = 10, calls = [''u'' \<mapsto> [0, 1, 2]]\<rparr>)))
      < fst (get_retry_after 3 ''u'' \<lparr>max_calls = 3, time_frame = 10, calls = [''u'' \<mapsto> [0, 1, 2]]\<rparr>)"
proof -
  let ?s = "\<lparr>max_calls = 3, time_frame = 10, calls = [''u'' \<mapsto> [0, 1, 2::real]]\<rparr>"
  have ne: "records ?s ''u'' \<noteq> []"
    by (simp add: records_def lookup_default_def)
  have v3: "fst (get_retry_after 3 ''u'' ?s) = 7"
    and v10: "fst (get_retry_after 10 ''u'' ?s) = 0"
    and v5: "fst (get_retry_after 5 ''u'' (snd (get_retry_after 3 ''u'' ?s))) = 5"
    by (simp_all add: get_retry_after_unfold records_def lookup_default_def)
  have imp: "3 < (5::real) \<and> 0 < fst (get_retry_after 3 ''u'' ?s) \<longrightarrow>
      fst (get_retry_after 5 ''u'' (snd (get_retry_after 3 ''u'' ?s)))
        < fst (get_retry_after 3 ''u'' ?s)"
    using monotonic_cooldown [OF ne, of 3 3 5] by blast
  have pre: "3 < (5::real) \<and> 0 < fst (get_retry_after 3 ''u'' ?s)"
    by (simp add: v3)
  have lt: "fst (get_retry_after 5 ''u'' (snd (get_retry_after 3 ''u'' ?s)))
      < fst (get_retry_after 3 ''u'' ?s)"
    by (rule mp [OF imp pre])
  show ?thesis
    by (intro conjI v3 v5 v10 lt)
qed

section \<open>\<^verbatim>\<open>get_retry_after\<close> writes to the table of keys\<close>

text \<open>
  Claim C10. For a key that is not in the table, \<^verbatim>\<open>get_retry_after\<close> returns 0 and
  the \<^verbatim>\<open>defaultdict\<close> lookup inserts the key with an empty list: the set of keys
  grows by the key, no timestamp is recorded, and no other key's entry changes.
\<close>

theorem retry_after_inserts_key:
  assumes "calls self key = None"
  shows "get_retry_after now key self = (0, self\<lparr>calls := (calls self)(key \<mapsto> [])\<rparr>)
     \<and> key \<notin> dom (calls self)
     \<and> dom (calls (snd (get_retry_after now key self))) = insert key (dom (calls self))
     \<and> records (snd (get_retry_after now key self)) key = []
     \<and> (\<forall>k. k \<noteq> key \<longrightarrow> calls (snd (get_retry_after now key self)) k = calls self k)"
  using assms by (auto simp add: get_retry_after_def lookup_default_def records_def)

text \<open>A query on a fresh limiter: the table has no key before and one key after.\<close>

theorem retry_after_inserts_key_witness:
  "calls (RateLimiter_init 5 60) ''42'' = None
   \<and> get_retry_after 1 ''42'' (RateLimiter_init 5 60)
       = (0, \<lparr>max_calls = 5, time_frame = 60, calls = [''42'' \<mapsto> []]\<rparr>)
   \<and> dom (calls (snd (get_retry_after 1 ''42'' (RateLimiter_init 5 60)))) = {''42''}
   \<and> dom (calls (RateLimiter_init 5 60 :: string RateLimiter)) = {}"
proof -
  have h: "calls (RateLimiter_init 5 60) ''42'' = None"
    by (simp add: RateLimiter_init_def)
  show ?thesis
    using h retry_after_inserts_key [OF h, of 1]
    by (simp add: RateLimiter_init_def)
qed

section \<open>The backoff schedule of \<^verbatim>\<open>get_gemini_response\<close>\<close>

text \<open>The three iterations of the loop, written out by the outcome of each attempt.\<close>

lemma range_3: "[0..<3] = [0, 1, 2]"
  by (simp add: upt_rec)

lemma get_gemini_response_cases:
  "get_gemini_response send =
     (case send 0 of
        Text t \<Rightarrow> \<lparr>returned = Some t, trace = [Send_message 0]\<rparr>
      | BlockedPromptException \<Rightarrow> \<lparr>returned = Some blocked_text, trace = [Send_message 0]\<rparr>
      | Exception e0 \<Rightarrow>
          (case send 1 of
             Text t \<Rightarrow> \<lparr>returned = Some t, trace = [Send_message 0, Sleep 2, Send_message 1]\<rparr>
           | BlockedPromptException \<Rightarrow>
               \<lparr>returned = Some blocked_text, trace = [Send_message 0, Sleep 2, Send_message 1]\<rparr>
           | Exception e1 \<Rightarrow>
               (case send 2 of
                  Text t \<Rightarrow>
                    \<lparr>returned = Some t,
                     trace = [Send_message 0, Sleep 2, Send_message 1, Sleep 4, Send_message 2]\<rparr>
                | BlockedPromptException \<Rightarrow>
                    \<lparr>returned = Some blocked_text,
                     trace = [Send_message 0, Sleep 2, Send_message 1, Sleep 4, Send_message 2]\<rparr>
                | Exception e2 \<Rightarrow>
                    \<lparr>returned = Some (error_text e2),
                     trace = [Send_message 0, Sleep 2, Send_message 1, Sleep 4, Send_message 2]\<rparr>)))"
  by (simp add: get_gemini_response_def range_3 split: outcome.splits)

text \<open>
  Claim C3 says that the delays between successive attempts are 2, 4 and 8 seconds.
  With three attempts there are two delays: against a service that always fails, the
  function sleeps 2 and 4 seconds, makes three attempts and returns the error text
  after the third failure without sleeping again.
\<close>

theorem backoff_counterexample:
  "sleeps (trace (get_gemini_response (\<lambda>attempt. Exception ''unavailable''))) = [2, 4]
   \<and> attempts (trace (get_gemini_response (\<lambda>attempt. Exception ''unavailable''))) = 3
   \<and> sleeps (trace (get_gemini_response (\<lambda>attempt. Exception ''unavailable''))) \<noteq> [2, 4, 8]
   \<and> returned (get_gemini_response (\<lambda>attempt. Exception ''unavailable''))
       = Some (error_text ''unavailable'')"
  by (simp add: get_gemini_response_cases)

text \<open>
  Claim C3, amended. \<^verbatim>\<open>get_gemini_response\<close> makes at least one and at most three
  attempts and always returns a text. It sleeps 2 seconds after the first failed
  attempt and 4 seconds after the second, and never after the third: the delays
  slept are the first \<open>attempts - 1\<close> of 2, 4. Given two failures followed by a
  success it returns the success text after exactly three attempts, having slept 2
  and then 4 seconds.
\<close>

theorem backoff_schedule:
  "1 \<le> attempts (trace (get_gemini_response send))
   \<and> attempts (trace (get_gemini_response send)) \<le> 3
   \<and> sleeps (trace (get_gemini_response send))
       = take (attempts (trace (get_gemini_response send)) - 1) [2, 4]
   \<and> returned (get_gemini_response send) \<noteq> None
   \<and> (send 0 = Exception e0 \<and> send 1 = Exception e1 \<and> send 2 = Text t \<longrightarrow>
        get_gemini_response send =
          \<lparr>returned = Some t,
           trace = [Send_message 0, Sleep 2, Send_message 1, Sleep 4, Send_message 2]\<rparr>)"
  by (simp add: get_gemini_response_cases split: outcome.splits)

text \<open>A service that fails twice and then answers.\<close>

theorem backoff_schedule_witness:
  "get_gemini_response (\<lambda>attempt. if attempt < 2 then Exception ''unavailable'' else Text ''pong'')
     = \<lparr>returned = Some ''pong'',
        trace = [Send_message 0, Sleep 2, Send_message 1, Sleep 4, Send_message 2]\<rparr>
   \<and> attempts (trace (get_gemini_response
        (\<lambda>attempt. if attempt < 2 then Exception ''unavailable'' else Text ''pong''))) = 3
   \<and> sleeps (trace (get_gemini_response
        (\<lambda>attempt. if attempt < 2 then Exception ''unavailable'' else Text ''pong''))) = [2, 4]"
  using backoff_schedule [of "\<lambda>attempt. if attempt < 2 then Exception ''unavailable'' else Text ''pong''"
      "''unavailable''" "''unavailable''" "''pong''"]
  by simp

section \<open>The blocked-content short circuit\<close>

lemma blocked_not_error: "blocked_text \<noteq> error_text e"
  by (simp add: blocked_text_def error_text_def)

text \<open>
  Claim C4. When the first attempt raises \<^verbatim>\<open>BlockedPromptException\<close>, the function
  returns the fixed refusal text after that one attempt and without any sleep. On
  any attempt \<open>i\<close> that is reached (the earlier attempts failed with another
  exception) and is blocked, the function returns the refusal text at once: attempt
  \<open>i\<close> is the last effect, and only the delays between the earlier attempts were
  slept. The refusal text is not an error text.
\<close>

theorem blocked_short_circuit:
  "(send 0 = BlockedPromptException \<longrightarrow>
      get_gemini_response send = \<lparr>returned = Some blocked_text, trace = [Send_message 0]\<rparr>
      \<and> attempts (trace (get_gemini_response send)) = 1
      \<and> sleeps (trace (get_gemini_response send)) = [])
   \<and> (i < 3 \<and> send i = BlockedPromptException \<and> (\<forall>j<i. \<exists>e. send j = Exception e) \<longrightarrow>
      returned (get_gemini_response send) = Some blocked_text
      \<and> attempts (trace (get_gemini_response send)) = i + 1
      \<and> last (trace (get_gemini_response send)) = Send_message i
      \<and> sleeps (trace (get_gemini_response send)) = take i [2, 4])
   \<and> blocked_text \<noteq> error_text e"
proof -
  have first: "send 0 = BlockedPromptException \<longrightarrow>
      get_gemini_response send = \<lparr>returned = Some blocked_text, trace = [Send_message 0]\<rparr>
      \<and> attempts (trace (get_gemini_response send)) = 1
      \<and> sleeps (trace (get_gemini_response send)) = []"
    by (simp add: get_gemini_response_cases)
  have any: "returned (get_gemini_response send) = Some blocked_text
      \<and> attempts (trace (get_gemini_response send)) = i + 1
      \<and> last (trace (get_gemini_response send)) = Send_message i
      \<and> sleeps (trace (get_gemini_response send)) = take i [2, 4]"
    if lt: "i < 3" and blk: "send i = BlockedPromptException"
      and prev: "\<forall>j<i. \<exists>e. send j = Exception e"
  proof -
    from lt consider "i = 0" | "i = 1" | "i = 2" by linarith
    then show ?thesis
    proof cases
      case 1
      with blk show ?thesis by (simp add: get_gemini_response_cases)
    next
      case 2
      with prev obtain e0 where "send 0 = Exception e0" by auto
      with 2 blk show ?thesis by (simp add: get_gemini_response_cases)
    next
      case 3
      with prev have "\<exists>e. send 0 = Exception e" and "\<exists>e. send 1 = Exception e"
        by simp_all
      then obtain e0 e1 where "send 0 = Exception e0" "send 1 = Exception e1"
        by blast
      with 3 blk show ?thesis by (simp add: get_gemini_response_cases)
    qed
  qed
  show ?thesis
    using first any blocked_not_error by blast
qed

text \<open>Blocked on the first attempt, and blocked on the second after one failure.\<close>

theorem blocked_short_circuit_witness:
  "get_gemini_response (\<lambda>attempt. BlockedPromptException)
     = \<lparr>returned = Some blocked_text, trace = [Send_message 0]\<rparr>
   \<and> attempts (trace (get_gemini_response (\<lambda>attempt. BlockedPromptException))) = 1
   \<and> sleeps (trace (get_gemini_response (\<lambda>attempt. BlockedPromptException))) = []
   \<and> returned (get_gemini_response
        (\<lambda>attempt. if attempt = 0 then Exception ''unavailable'' else BlockedPromptException))
       = Some blocked_text
   \<and> sleeps (trace (get_gemini_response
        (\<lambda>attempt. if attempt = 0 then Exception ''unavailable'' else BlockedPromptException))) = [2]"
  using blocked_short_circuit [of "\<lambda>attempt. BlockedPromptException" 0]
    blocked_short_circuit
      [of "\<lambda>attempt. if attempt = 0 then Exception ''unavailable'' else BlockedPromptException" 1]
  by simp

section \<open>\<^verbatim>\<open>forget\<close>: the authorization gate and the reported count\<close>

text \<open>Evaluations of \<open>str_nat\<close> and \<open>lower\<close> that the proofs below use.\<close>

lemma str_nat_1: "str_nat (Suc 0) = ''1''"
  by code_simp

lemma lower_all: "lower ''all'' = ''all''"
  by code_simp

lemma lower_user: "lower ''user'' = ''user''"
  by code_simp

text \<open>
  The gate as the source intends it: a guild member without the administrator
  permission gets the Permission Denied embed and the store is as it was.
\<close>

lemma forget_all_member_denied:
  assumes "lower target = ''all''"
  shows "forget user_id (Some False) target conversations = Inr (permission_denied, conversations)"
  using assms by (simp add: forget_def guild_permissions_administrator_def)

text \<open>
  Claim C5 asks that every caller without administrator authorization who requests
  \<^verbatim>\<open>all\<close> finds the store unchanged and receives the permission-denied report. In a
  direct message the author has no \<^verbatim>\<open>guild_permissions\<close>: \<^verbatim>\<open>forget\<close> raises
  \<^verbatim>\<open>AttributeError\<close> at the test for the administrator, before it deletes or sends
  anything. The store is unchanged, but the caller receives the error handler's
  Error embed, not Permission Denied.
\<close>

theorem forget_all_direct_message:
  assumes "lower target = ''all''"
  shows "forget user_id None target conversations = Inl (AttributeError ''guild_permissions'')
     \<and> snd (forget_command user_id None target conversations) = conversations
     \<and> fst (forget_command user_id None target conversations)
         = on_command_error (AttributeError ''guild_permissions'')
     \<and> title (fst (forget_command user_id None target conversations)) = ''Error''
     \<and> fst (forget_command user_id None target conversations) \<noteq> permission_denied"
  using assms
  by (simp add: forget_def forget_command_def guild_permissions_administrator_def
      on_command_error_def permission_denied_def)

text \<open>
  \<^verbatim>\<open>>forget all\<close> in a direct message from user 7, on a store with two sessions; a
  guild member without the permission gets Permission Denied on the same store.
\<close>

theorem forget_all_direct_message_witness:
  "lower ''all'' = ''all''
   \<and> forget ''7'' None ''all''
        [(''user:1'', \<lparr>chat = [], created_at = 0\<rparr>), (''user:7'', \<lparr>chat = [], created_at = 5\<rparr>)]
      = Inl (AttributeError ''guild_permissions'')
   \<and> forget_command ''7'' None ''all''
        [(''user:1'', \<lparr>chat = [], created_at = 0\<rparr>), (''user:7'', \<lparr>chat = [], created_at = 5\<rparr>)]
      = (\<lparr>title = ''Error'',
          description = ''An error occurred: Command raised an exception: AttributeError: 'User' object has no attribute '' @ [CHR 0x27] @ ''guild_permissions'' @ [CHR 0x27],
          embed_fields = []\<rparr>,
         [(''user:1'', \<lparr>chat = [], created_at = 0\<rparr>), (''user:7'', \<lparr>chat = [], created_at = 5\<rparr>)])
   \<and> forget_command ''7'' (Some False) ''all''
        [(''user:1'', \<lparr>chat = [], created_at = 0\<rparr>), (''user:7'', \<lparr>chat = [], created_at = 5\<rparr>)]
      = (\<lparr>title = ''Permission Denied'',
          description = ''Only administrators can clear all conversations.'',
          embed_fields = []\<rparr>,
         [(''user:1'', \<lparr>chat = [], created_at = 0\<rparr>), (''user:7'', \<lparr>chat = [], created_at = 5\<rparr>)])"
proof -
  let ?c = "[(''user:1'', \<lparr>chat = [], created_at = 0\<rparr>), (''user:7'', \<lparr>chat = [], created_at = 5\<rparr>)]"
  have l: "lower ''all'' = ''all''" by (rule lower_all)
  have member: "forget_command ''7'' (Some False) ''all'' ?c = (permission_denied, ?c)"
    by (simp add: forget_command_def forget_all_member_denied [OF l])
  show ?thesis
    using l member forget_all_direct_message [OF l, of "''7''" ?c]
    by (simp add: prod_eq_iff permission_denied_def on_command_error_def str_error_def)
qed

text \<open>
  Claim C9. With the target \<^verbatim>\<open>user\<close>, \<^verbatim>\<open>forget\<close> always reports one cleared
  conversation, the length of \<^verbatim>\<open>keys_to_remove\<close>; when the user has no session the
  store is left unchanged and the report still says one. The permissions of the
  author are not read on this branch, so it is the same in a direct message.
\<close>

theorem forget_absent_user:
  assumes "lower target = ''user''"
  shows "forget user_id guild_permissions target conversations =
           Inr (\<lparr>title = ''Memory Reset'',
                 description = ''I've cleared 1 conversation(s)!'',
                 embed_fields = [(''Details'', ''Reset: your conversation history'')]\<rparr>,
                remove_keys [''user:'' @ user_id] conversations)
     \<and> (\<not> has_key (''user:'' @ user_id) conversations \<longrightarrow>
          forget user_id guild_permissions target conversations =
            Inr (\<lparr>title = ''Memory Reset'',
                  description = ''I've cleared 1 conversation(s)!'',
                  embed_fields = [(''Details'', ''Reset: your conversation history'')]\<rparr>,
                 conversations))"
  using assms by (simp add: forget_def memory_reset_def str_nat_1 Let_def)

text \<open>User 7 has no session; the store holds the session of user 1.\<close>

theorem forget_absent_user_witness:
  "lower ''user'' = ''user''
   \<and> \<not> has_key (''user:'' @ ''7'') [(''user:1'', \<lparr>chat = [], created_at = 0\<rparr>)]
   \<and> forget ''7'' (Some False) ''user'' [(''user:1'', \<lparr>chat = [], created_at = 0\<rparr>)]
      = Inr (\<lparr>title = ''Memory Reset'',
              description = ''I've cleared 1 conversation(s)!'',
              embed_fields = [(''Details'', ''Reset: your conversation history'')]\<rparr>,
             [(''user:1'', \<lparr>chat = [], created_at = 0\<rparr>)])
   \<and> forget ''7'' None ''user'' [(''user:1'', \<lparr>chat = [], created_at = 0\<rparr>)]
      = Inr (\<lparr>title = ''Memory Reset'',
              description = ''I've cleared 1 conversation(s)!'',
              embed_fields = [(''Details'', ''Reset: your conversation history'')]\<rparr>,
             [(''user:1'', \<lparr>chat = [], created_at = 0\<rparr>)])"
proof -
  have l: "lower ''user'' = ''user''" by (rule lower_user)
  have a: "\<not> has_key (''user:'' @ ''7'') [(''user:1'', \<lparr>chat = [], created_at = 0\<rparr>)]"
    by (simp add: has_key_def)
  show ?thesis
    using l a
      forget_absent_user [OF l, of "''7''" "Some False" "[(''user:1'', \<lparr>chat = [], created_at = 0\<rparr>)]"]
      forget_absent_user [OF l, of "''7''" None "[(''user:1'', \<lparr>chat = [], created_at = 0\<rparr>)]"]
    by simp
qed

section \<open>The reaper's sweep\<close>

text \<open>
  The loop of \<^verbatim>\<open>check_conversation_age\<close> over a part \<open>items\<close> of the snapshot: it
  removes from the store the expired entries of \<open>items\<close> and counts them. The keys
  of a dictionary are distinct, so the unguarded \<^verbatim>\<open>del\<close> finds each key.
\<close>

lemma del_item_present:
  "(key, v) \<in> set conversations \<Longrightarrow>
     del_item key conversations = Inr (filter (\<lambda>kv. fst kv \<noteq> key) conversations)"
  by (force simp add: del_item_def has_key_def)

lemma distinct_fst_filter:
  "distinct (map fst xs) \<Longrightarrow> distinct (map fst (filter P xs))"
  by (simp add: distinct_map_filter)

lemma key_determines_entry:
  assumes "distinct (map fst xs)" and "(key, v) \<in> set xs" and "kv \<in> set xs"
  shows "fst kv = key \<longleftrightarrow> kv = (key, v)"
  using assms by (metis eq_key_imp_eq_value fst_conv prod.collapse)

lemma sweep_gen:
  assumes "distinct (map fst conversations)" and "distinct (map fst items)"
    and "set items \<subseteq> set conversations"
  shows "sweep now items conversations reset_count =
           Inr (filter (\<lambda>kv. \<not> (kv \<in> set items \<and> expired now kv)) conversations,
                reset_count + length (filter (expired now) items))"
  using assms
proof (induction items arbitrary: conversations reset_count)
  case Nil
  then show ?case by simp
next
  case (Cons item items)
  obtain key v where item: "item = (key, v)" by (cases item)
  have present: "(key, v) \<in> set conversations"
    using Cons.prems(3) item by simp
  have fresh: "key \<notin> fst ` set items" and dist: "distinct (map fst items)"
    using Cons.prems(2) item by simp_all
  show ?case
  proof (cases "expired now (key, v)")
    case True
    let ?rest = "filter (\<lambda>kv. fst kv \<noteq> key) conversations"
    have sub: "set items \<subseteq> set ?rest"
      using Cons.prems(3) fresh by auto
    have step: "sweep now (item # items) conversations reset_count
        = sweep now items ?rest (reset_count + 1)"
      using True by (simp add: item expired_def del_item_present [OF present])
    have same: "filter (\<lambda>kv. \<not> (kv \<in> set items \<and> expired now kv)) ?rest
        = filter (\<lambda>kv. \<not> (kv \<in> set (item # items) \<and> expired now kv)) conversations"
      unfolding filter_filter
    proof (rule filter_cong [OF refl])
      fix kv assume "kv \<in> set conversations"
      then have "fst kv = key \<longleftrightarrow> kv = (key, v)"
        by (rule key_determines_entry [OF Cons.prems(1) present])
      then show "(fst kv \<noteq> key \<and> \<not> (kv \<in> set items \<and> expired now kv))
          = (\<not> (kv \<in> set (item # items) \<and> expired now kv))"
        using True item by auto
    qed
    show ?thesis
      unfolding step
      using Cons.IH [OF distinct_fst_filter [OF Cons.prems(1)] dist sub, of "reset_count + 1"]
        True same
      by (simp add: item)
  next
    case False
    have step: "sweep now (item # items) conversations reset_count
        = sweep now items conversations reset_count"
      using False by (simp add: item expired_def)
    have sub: "set items \<subseteq> set conversations"
      using Cons.prems(3) by simp
    have same: "filter (\<lambda>kv. \<not> (kv \<in> set items \<and> expired now kv)) conversations
        = filter (\<lambda>kv. \<not> (kv \<in> set (item # items) \<and> expired now kv)) conversations"
      using False item by (intro filter_cong) auto
    show ?thesis
      unfolding step
      using Cons.IH [OF Cons.prems(1) dist sub, of reset_count] False same
      by (simp add: item)
  qed
qed

text \<open>
  Claim C6. One run of \<^verbatim>\<open>check_conversation_age\<close> on a store with distinct keys
  raises no error, removes exactly the sessions with
  \<open>current_time - created_at > 7 days\<close> and keeps all the others in their order; its
  count is the number of sessions removed, and the count is what it logs (it logs
  nothing when the count is zero).
\<close>

theorem reaper_sweep:
  assumes "distinct (map fst conversations)"
  shows "check_conversation_age now conversations =
           Inr \<lparr>remaining = filter (\<lambda>kv. \<not> expired now kv) conversations,
                deleted = length (filter (expired now) conversations),
                logged = (if length (filter (expired now) conversations) > 0
                          then Some (''Auto-reset ''
                                 @ str_nat (length (filter (expired now) conversations))
                                 @ '' conversations that were over a week old'')
                          else None)\<rparr>
     \<and> length (filter (\<lambda>kv. \<not> expired now kv) conversations)
         + length (filter (expired now) conversations) = length conversations"
proof -
  have "filter (\<lambda>kv. \<not> (kv \<in> set conversations \<and> expired now kv)) conversations
      = filter (\<lambda>kv. \<not> expired now kv) conversations"
    by (intro filter_cong) auto
  then have "sweep now conversations conversations 0
      = Inr (filter (\<lambda>kv. \<not> expired now kv) conversations,
             length (filter (expired now) conversations))"
    using sweep_gen [OF assms assms subset_refl, of now 0] by simp
  moreover have "length (filter (\<lambda>kv. \<not> expired now kv) conversations)
         + length (filter (expired now) conversations) = length conversations"
    using sum_length_filter_compl [of "expired now" conversations] by simp
  ultimately show ?thesis
    by (simp add: check_conversation_age_def)
qed

text \<open>
  Sessions aged 6 days, 8 days and exactly 7 days at the time of the sweep: only the
  session aged 8 days is removed, and the count is 1.
\<close>

theorem reaper_sweep_witness:
  "distinct (map fst
     [(''user:6'', \<lparr>chat = [], created_at = timedelta_days 2\<rparr>),
      (''user:8'', \<lparr>chat = [], created_at = 0\<rparr>),
      (''user:7'', \<lparr>chat = [], created_at = timedelta_days 1\<rparr>)])
   \<and> check_conversation_age (timedelta_days 8)
     [(''user:6'', \<lparr>chat = [], created_at = timedelta_days 2\<rparr>),
      (''user:8'', \<lparr>chat = [], created_at = 0\<rparr>),
      (''user:7'', \<lparr>chat = [], created_at = timedelta_days 1\<rparr>)]
     = Inr \<lparr>remaining = [(''user:6'', \<lparr>chat = [], created_at = timedelta_days 2\<rparr>),
                         (''user:7'', \<lparr>chat = [], created_at = timedelta_days 1\<rparr>)],
            deleted = 1,
            logged = Some ''Auto-reset 1 conversations that were over a week old''\<rparr>"
proof -
  let ?c = "[(''user:6'', \<lparr>chat = [], created_at = timedelta_days 2\<rparr>),
      (''user:8'', \<lparr>chat = [], created_at = 0\<rparr>),
      (''user:7'', \<lparr>chat = [], created_at = timedelta_days 1\<rparr>)]"
  have d: "distinct (map fst ?c)" by simp
  show ?thesis
    using d reaper_sweep [OF d, of "timedelta_days 8"]
    by (simp add: expired_def timedelta_days_def str_nat_1)
qed

end
